theory Spec2Isabelle
  imports
    Main
    "HOL-Library.Word"
    "HOL-Library.AList"
    "HOL-Library.Char_ord"
    "HOL-Library.List_Lexorder"
begin

unbundle bit_operations_syntax

chapter \<open>chain-rpc: the chain directory index and the endpoint prober\<close>

text \<open>
  A shallow embedding of \<^verbatim>\<open>pkg/rpc\<close> (the endpoint prober), \<^verbatim>\<open>pkg/chain\<close> (the
  cached chain directory) and the URL filter of \<^verbatim>\<open>main.go\<close>. Go strings are byte
  strings (\<^typ>\<open>string\<close>), \<^verbatim>\<open>uint64\<close> is \<^typ>\<open>64 word\<close>, an \<^verbatim>\<open>error\<close> return is the
  left summand of a sum type. What the network, the clock, the disk and the scheduler
  decide is an argument of the function that observes it.
\<close>

section \<open>Go library functions the sources call\<close>

type_synonym uint64 = "64 word"

subsection \<open>Package strings\<close>

text \<open>\<^verbatim>\<open>strings.HasPrefix\<close>: \<^verbatim>\<open>len(s) >= len(prefix) && s[:len(prefix)] == prefix\<close>.\<close>

definition HasPrefix :: "string \<Rightarrow> string \<Rightarrow> bool" where
  "HasPrefix s pre = (length pre \<le> length s \<and> take (length pre) s = pre)"

text \<open>\<^verbatim>\<open>strings.Contains\<close>: \<^verbatim>\<open>substr\<close> occurs in \<^verbatim>\<open>s\<close> at some offset.\<close>

fun Contains :: "string \<Rightarrow> string \<Rightarrow> bool" where
  "Contains [] substr = (substr = [])"
| "Contains (c # cs) substr = (HasPrefix (c # cs) substr \<or> Contains cs substr)"

text \<open>
  \<^verbatim>\<open>strings.ReplaceAll\<close> with a pattern and a replacement of one byte each, which is
  how the source calls it.
\<close>

definition ReplaceAll :: "string \<Rightarrow> char \<Rightarrow> char \<Rightarrow> string" where
  "ReplaceAll s old new = map (\<lambda>c. if c = old then new else c) s"

subsection \<open>Packages unicode/utf8 and unicode\<close>

text \<open>
  A rune is a code point. The shifts and masks of the Go source are written as
  arithmetic: \<^verbatim>\<open>b & 0x3F\<close> is \<open>b mod 64\<close>, \<^verbatim>\<open>r << 6\<close> is \<open>r * 64\<close>, \<^verbatim>\<open>r >> 6\<close> is
  \<open>r div 64\<close>, and \<^verbatim>\<open>|\<close> joins bit fields that do not overlap, so it is \<open>+\<close>.
\<close>

type_synonym rune = nat

definition RuneError :: rune where
  "RuneError = 0xFFFD"

text \<open>
  The table \<^verbatim>\<open>first\<close> with \<^verbatim>\<open>acceptRanges\<close>: for a lead byte of a multi-byte sequence,
  the length of the sequence and the range its second byte must lie in.
\<close>

definition accept_range :: "nat \<Rightarrow> (nat \<times> nat \<times> nat) option" where
  "accept_range s0 =
     (if 0xC2 \<le> s0 \<and> s0 \<le> 0xDF then Some (2, 0x80, 0xBF)
      else if s0 = 0xE0 then Some (3, 0xA0, 0xBF)
      else if (0xE1 \<le> s0 \<and> s0 \<le> 0xEC) \<or> s0 = 0xEE \<or> s0 = 0xEF then Some (3, 0x80, 0xBF)
      else if s0 = 0xED then Some (3, 0x80, 0x9F)
      else if s0 = 0xF0 then Some (4, 0x90, 0xBF)
      else if 0xF1 \<le> s0 \<and> s0 \<le> 0xF3 then Some (4, 0x80, 0xBF)
      else if s0 = 0xF4 then Some (4, 0x80, 0x8F)
      else None)"

text \<open>\<^verbatim>\<open>utf8.DecodeRuneInString\<close>: the first rune of \<open>s\<close> and its width in bytes.\<close>

definition DecodeRuneInString :: "string \<Rightarrow> rune \<times> nat" where
  "DecodeRuneInString s =
     (case map of_char s of
        [] \<Rightarrow> (RuneError, 0)
      | s0 # rest \<Rightarrow>
          if s0 < 0x80 then (s0, 1)
          else case accept_range s0 of
            None \<Rightarrow> (RuneError, 1)
          | Some (sz, lo, hi) \<Rightarrow>
              if length s < sz then (RuneError, 1)
              else let s1 = rest ! 0 in
                if s1 < lo \<or> hi < s1 then (RuneError, 1)
                else if sz \<le> 2 then ((s0 mod 32) * 64 + s1 mod 64, 2)
                else let s2 = rest ! 1 in
                  if s2 < 0x80 \<or> 0xBF < s2 then (RuneError, 1)
                  else if sz \<le> 3 then ((s0 mod 16) * 4096 + (s1 mod 64) * 64 + s2 mod 64, 3)
                  else let s3 = rest ! 2 in
                    if s3 < 0x80 \<or> 0xBF < s3 then (RuneError, 1)
                    else ((s0 mod 8) * 262144 + (s1 mod 64) * 4096 + (s2 mod 64) * 64
                            + s3 mod 64, 4))"

text \<open>\<^verbatim>\<open>utf8.RuneStart\<close>: \<^verbatim>\<open>b & 0xC0 != 0x80\<close>.\<close>

definition RuneStart :: "char \<Rightarrow> bool" where
  "RuneStart b = (\<not> (0x80 \<le> (of_char b :: nat) \<and> (of_char b :: nat) \<le> 0xBF))"

text \<open>
  \<^verbatim>\<open>utf8.DecodeLastRuneInString\<close>. Its loop walks back from the byte before the last
  one to the limit, and stops at a byte that can start a rune.
\<close>

function back_loop :: "string \<Rightarrow> int \<Rightarrow> int \<Rightarrow> int" where
  "back_loop s lim start =
     (if start \<ge> lim then (if RuneStart (s ! nat start) then start else back_loop s lim (start - 1))
      else start)"
  by pat_completeness auto
termination
  by (relation "measure (\<lambda>(s, lim, start). nat (start - lim + 1))") auto

declare back_loop.simps [simp del]

definition last_start :: "string \<Rightarrow> nat" where
  "last_start s =
     (let end = int (length s);
          lim = (if end - 4 < 0 then 0 else end - 4);
          start = back_loop s lim (end - 1 - 1)
      in nat (if start < 0 then 0 else start))"

definition DecodeLastRuneInString :: "string \<Rightarrow> rune \<times> nat" where
  "DecodeLastRuneInString s =
     (if s = [] then (RuneError, 0)
      else let r = of_char (last s) in
        if r < 0x80 then (r, 1)
        else let start = last_start s;
                 (r, size) = DecodeRuneInString (drop start s)
             in if start + size \<noteq> length s then (RuneError, 1) else (r, size))"

text \<open>\<^verbatim>\<open>utf8.AppendRune\<close> to an empty buffer: the UTF-8 encoding of a rune.\<close>

definition EncodeRune :: "rune \<Rightarrow> string" where
  "EncodeRune r =
     (if r \<le> 0x7F then [char_of r]
      else if r \<le> 0x7FF then [char_of (0xC0 + r div 64), char_of (0x80 + r mod 64)]
      else let r = (if r > 0x10FFFF \<or> (0xD800 \<le> r \<and> r \<le> 0xDFFF) then RuneError else r) in
        if r \<le> 0xFFFF
          then [char_of (0xE0 + r div 4096), char_of (0x80 + (r div 64) mod 64),
                char_of (0x80 + r mod 64)]
        else [char_of (0xF0 + r div 262144), char_of (0x80 + (r div 4096) mod 64),
              char_of (0x80 + (r div 64) mod 64), char_of (0x80 + r mod 64)])"

text \<open>\<^verbatim>\<open>unicode.IsSpace\<close>: the Latin-1 cases and the table \<^verbatim>\<open>White_Space\<close>.\<close>

definition IsSpace :: "rune \<Rightarrow> bool" where
  "IsSpace r =
     (if r \<le> 0xFF
        then r = 0x09 \<or> r = 0x0A \<or> r = 0x0B \<or> r = 0x0C \<or> r = 0x0D \<or> r = 0x20
               \<or> r = 0x85 \<or> r = 0xA0
      else r = 0x1680 \<or> (0x2000 \<le> r \<and> r \<le> 0x200A) \<or> r = 0x2028 \<or> r = 0x2029
             \<or> r = 0x202F \<or> r = 0x205F \<or> r = 0x3000)"

text \<open>
  \<^verbatim>\<open>unicode.ToLower\<close>. Above ASCII it consults the table \<^verbatim>\<open>unicode.CaseRanges\<close>, which
  is data of the Go distribution: the argument \<open>tbl\<close> is that table's lower-case
  mapping.
\<close>

definition unicode_ToLower :: "(rune \<Rightarrow> rune) \<Rightarrow> rune \<Rightarrow> rune" where
  "unicode_ToLower tbl r =
     (if r \<le> 0x7F then (if 0x41 \<le> r \<and> r \<le> 0x5A then r + 32 else r) else tbl r)"

subsection \<open>Package strings, continued\<close>

lemma DecodeRune_width: "s \<noteq> [] \<Longrightarrow> 1 \<le> snd (DecodeRuneInString s)"
  by (cases s) (simp_all add: DecodeRuneInString_def Let_def split: option.splits prod.splits)

text \<open>
  \<^verbatim>\<open>strings.Map\<close>. Its first loop copies the bytes of \<open>s\<close> up to the first rune that
  the mapping changes or that is an invalid byte; its second loop (\<open>map_tail\<close>) writes
  the encoding of the mapped rune for every rune from there on.
\<close>

function map_tail :: "(rune \<Rightarrow> rune) \<Rightarrow> string \<Rightarrow> string" where
  "map_tail mapping s =
     (if s = [] then []
      else let (c, width) = DecodeRuneInString s
           in EncodeRune (mapping c) @ map_tail mapping (drop width s))"
  by pat_completeness auto
termination
proof (relation "measure (\<lambda>(mapping, s). length s)")
  show "wf (measure (\<lambda>(mapping, s). length s))" by simp
next
  fix mapping :: "rune \<Rightarrow> rune" and s :: string and x c width
  assume "s \<noteq> []" and "x = DecodeRuneInString s" and "(c, width) = x"
  then have "1 \<le> width" using DecodeRune_width [of s] by (metis snd_conv)
  with \<open>s \<noteq> []\<close> show "((mapping, drop width s), (mapping, s)) \<in> measure (\<lambda>(mapping, s). length s)"
    by simp
qed


declare map_tail.simps [simp del]

function strings_Map :: "(rune \<Rightarrow> rune) \<Rightarrow> string \<Rightarrow> string" where
  "strings_Map mapping s =
     (if s = [] then []
      else let (c, width) = DecodeRuneInString s; r = mapping c
           in if r = c \<and> \<not> (c = RuneError \<and> width = 1)
                then take width s @ strings_Map mapping (drop width s)
              else EncodeRune r @ map_tail mapping (drop width s))"
  by pat_completeness auto
termination
proof (relation "measure (\<lambda>(mapping, s). length s)")
  show "wf (measure (\<lambda>(mapping, s). length s))" by simp
next
  fix mapping :: "rune \<Rightarrow> rune" and s :: string and x c width r
  assume "s \<noteq> []" and "x = DecodeRuneInString s" and "(c, width) = x"
  then have "1 \<le> width" using DecodeRune_width [of s] by (metis snd_conv)
  with \<open>s \<noteq> []\<close> show "((mapping, drop width s), (mapping, s)) \<in> measure (\<lambda>(mapping, s). length s)"
    by simp
qed

declare strings_Map.simps [simp del]

text \<open>\<^verbatim>\<open>strings.ToLower\<close>, with its path for strings that are ASCII throughout.\<close>

definition ToLower :: "(rune \<Rightarrow> rune) \<Rightarrow> string \<Rightarrow> string" where
  "ToLower tbl s =
     (if list_all (\<lambda>c. (of_char c :: nat) < 0x80) s then
        (if \<not> list_ex (\<lambda>c. CHR ''A'' \<le> c \<and> c \<le> CHR ''Z'') s then s
         else map (\<lambda>c. if CHR ''A'' \<le> c \<and> c \<le> CHR ''Z'' then char_of (of_char c + (32::nat)) else c) s)
      else strings_Map (unicode_ToLower tbl) s)"

text \<open>
  \<^verbatim>\<open>indexFunc\<close> and \<^verbatim>\<open>lastIndexFunc\<close> (\<open>None\<close> for \<^verbatim>\<open>-1\<close>), and the trimming
  functions built on them.
\<close>

function indexFunc :: "string \<Rightarrow> (rune \<Rightarrow> bool) \<Rightarrow> bool \<Rightarrow> nat option" where
  "indexFunc s f truth =
     (if s = [] then None
      else let (r, width) = DecodeRuneInString s
           in if f r = truth then Some 0
              else map_option (\<lambda>i. i + width) (indexFunc (drop width s) f truth))"
  by pat_completeness auto
termination
proof (relation "measure (\<lambda>(s, f, truth). length s)")
  show "wf (measure (\<lambda>(s, f, truth). length s))" by simp
next
  fix s :: string and f :: "rune \<Rightarrow> bool" and truth :: bool and x r width
  assume "s \<noteq> []" and "x = DecodeRuneInString s" and "(r, width) = x"
  then have "1 \<le> width" using DecodeRune_width [of s] by (metis snd_conv)
  with \<open>s \<noteq> []\<close> show "((drop width s, f, truth), (s, f, truth)) \<in> measure (\<lambda>(s, f, truth). length s)"
    by simp
qed

declare indexFunc.simps [simp del]

lemma back_loop_le: "back_loop s lim start \<le> start"
proof (induction s lim start rule: back_loop.induct)
  case (1 s lim start)
  show ?case
  proof (cases "start \<ge> lim \<and> \<not> RuneStart (s ! nat start)")
    case True
    then have "back_loop s lim start = back_loop s lim (start - 1)"
      by (subst back_loop.simps) simp
    with 1 True show ?thesis by simp
  next
    case False
    then have "back_loop s lim start = start"
      by (subst back_loop.simps) auto
    then show ?thesis by simp
  qed
qed

lemma last_start_less: "s \<noteq> [] \<Longrightarrow> last_start s < length s"
  using back_loop_le [of s "if int (length s) - 4 < 0 then 0 else int (length s) - 4"
      "int (length s) - 1 - 1"]
  by (auto simp: last_start_def Let_def)

lemma DecodeLastRune_size: "s \<noteq> [] \<Longrightarrow> 1 \<le> snd (DecodeLastRuneInString s)"
proof -
  assume ne: "s \<noteq> []"
  obtain r n where d: "DecodeRuneInString (drop (last_start s) s) = (r, n)"
    by (cases "DecodeRuneInString (drop (last_start s) s)")
  have "drop (last_start s) s \<noteq> []" using last_start_less [OF ne] by simp
  then have "1 \<le> n" using DecodeRune_width [of "drop (last_start s) s"] d by simp
  then show ?thesis using ne d by (simp add: DecodeLastRuneInString_def Let_def)
qed

function lastIndexFunc :: "string \<Rightarrow> (rune \<Rightarrow> bool) \<Rightarrow> bool \<Rightarrow> nat option" where
  "lastIndexFunc s f truth =
     (if s = [] then None
      else let (r, size) = DecodeLastRuneInString s; i = length s - size
           in if f r = truth then Some i else lastIndexFunc (take i s) f truth)"
  by pat_completeness auto
termination
proof (relation "measure (\<lambda>(s, f, truth). length s)")
  show "wf (measure (\<lambda>(s, f, truth). length s))" by simp
next
  fix s :: string and f :: "rune \<Rightarrow> bool" and truth :: bool and x r size' i
  assume "s \<noteq> []" and "x = DecodeLastRuneInString s" and "(r, size') = x" and "i = length s - size'"
  then have "1 \<le> size'" using DecodeLastRune_size [of s] by (metis snd_conv)
  with \<open>s \<noteq> []\<close> \<open>i = length s - size'\<close>
  show "((take i s, f, truth), (s, f, truth)) \<in> measure (\<lambda>(s, f, truth). length s)"
    by (cases s) simp_all
qed

declare lastIndexFunc.simps [simp del]

definition TrimLeftFunc :: "string \<Rightarrow> (rune \<Rightarrow> bool) \<Rightarrow> string" where
  "TrimLeftFunc s f = (case indexFunc s f False of None \<Rightarrow> [] | Some i \<Rightarrow> drop i s)"

definition TrimRightFunc :: "string \<Rightarrow> (rune \<Rightarrow> bool) \<Rightarrow> string" where
  "TrimRightFunc s f =
     (case lastIndexFunc s f False of
        None \<Rightarrow> take 0 s
      | Some i \<Rightarrow>
          if (of_char (s ! i) :: nat) \<ge> 0x80
            then take (i + snd (DecodeRuneInString (drop i s))) s
          else take (i + 1) s)"

definition TrimFunc :: "string \<Rightarrow> (rune \<Rightarrow> bool) \<Rightarrow> string" where
  "TrimFunc s f = TrimRightFunc (TrimLeftFunc s f) f"

text \<open>
  \<^verbatim>\<open>strings.TrimSpace\<close>: over ASCII bytes it trims with the table \<^verbatim>\<open>asciiSpace\<close>, from
  the left and then (\<open>trim_stop\<close>) from the right, and on meeting a byte from
  \<^verbatim>\<open>0x80\<close> on it hands the rest to the rune-wise functions.
\<close>

definition asciiSpace :: "char \<Rightarrow> bool" where
  "asciiSpace c = (c = CHR 0x09 \<or> c = CHR 0x0A \<or> c = CHR 0x0B \<or> c = CHR 0x0C \<or> c = CHR 0x0D
     \<or> c = CHR 0x20)"

function trim_stop :: "string \<Rightarrow> string" where
  "trim_stop s =
     (if s = [] then []
      else if (of_char (last s) :: nat) \<ge> 0x80 then TrimRightFunc s IsSpace
      else if asciiSpace (last s) then trim_stop (butlast s)
      else s)"
  by pat_completeness auto
termination
proof (relation "measure length")
  show "wf (measure length)" by simp
next
  fix s :: string
  assume "s \<noteq> []"
  then show "(butlast s, s) \<in> measure length" by (cases s rule: rev_cases) simp_all
qed

declare trim_stop.simps [simp del]

fun TrimSpace :: "string \<Rightarrow> string" where
  "TrimSpace [] = []"
| "TrimSpace (c # cs) =
     (if (of_char c :: nat) \<ge> 0x80 then TrimFunc (c # cs) IsSpace
      else if asciiSpace c then TrimSpace cs
      else trim_stop (c # cs))"

subsection \<open>Package strconv\<close>

datatype NumError = ErrSyntax | ErrRange | ErrBase | ErrBitSize

text \<open>\<^verbatim>\<open>lower(c) = c | ('x' - 'X')\<close>.\<close>

definition lower :: "char \<Rightarrow> char" where
  "lower c = char_of ((of_char c :: nat) OR 32)"

text \<open>The digit a byte stands for in \<^verbatim>\<open>ParseUint\<close>'s loop, if any.\<close>

definition digit_of :: "char \<Rightarrow> nat option" where
  "digit_of c =
     (if CHR ''0'' \<le> c \<and> c \<le> CHR ''9'' then Some (of_char c - of_char CHR ''0'')
      else if CHR ''a'' \<le> lower c \<and> lower c \<le> CHR ''z''
        then Some (of_char (lower c) - of_char CHR ''a'' + 10)
      else None)"

text \<open>
  The loop of \<^verbatim>\<open>ParseUint\<close> over the bytes after the base prefix. It returns the
  number read and whether an underscore was seen.
\<close>

fun parse_digits ::
  "nat \<Rightarrow> bool \<Rightarrow> uint64 \<Rightarrow> uint64 \<Rightarrow> string \<Rightarrow> bool \<Rightarrow> uint64 \<Rightarrow> NumError + (uint64 \<times> bool)"
where
  "parse_digits base base0 cutoff maxVal [] underscores n = Inr (n, underscores)"
| "parse_digits base base0 cutoff maxVal (c # cs) underscores n =
     (if c = CHR ''_'' \<and> base0 then parse_digits base base0 cutoff maxVal cs True n
      else case digit_of c of
        None \<Rightarrow> Inl ErrSyntax
      | Some d \<Rightarrow>
          if d \<ge> base then Inl ErrSyntax
          else if n \<ge> cutoff then Inl ErrRange
          else let n' = n * of_nat base; n1 = n' + of_nat d
               in if n1 < n' \<or> n1 > maxVal then Inl ErrRange
                  else parse_digits base base0 cutoff maxVal cs underscores n1)"

text \<open>
  \<^verbatim>\<open>underscoreOK\<close>: underscores only between digits or between the base prefix and a
  digit. \<^verbatim>\<open>saw\<close> is the kind of the last byte: \<^verbatim>\<open>^\<close> for the beginning, \<^verbatim>\<open>0\<close> for a
  digit, \<^verbatim>\<open>_\<close> for an underscore, \<^verbatim>\<open>!\<close> for anything else.
\<close>

fun underscore_loop :: "bool \<Rightarrow> char \<Rightarrow> string \<Rightarrow> bool" where
  "underscore_loop hex saw [] = (saw \<noteq> CHR ''_'')"
| "underscore_loop hex saw (c # cs) =
     (if (CHR ''0'' \<le> c \<and> c \<le> CHR ''9'') \<or> (hex \<and> CHR ''a'' \<le> lower c \<and> lower c \<le> CHR ''f'')
        then underscore_loop hex CHR ''0'' cs
      else if c = CHR ''_''
        then (if saw \<noteq> CHR ''0'' then False else underscore_loop hex CHR ''_'' cs)
      else if saw = CHR ''_'' then False
      else underscore_loop hex CHR ''!'' cs)"

definition underscoreOK :: "string \<Rightarrow> bool" where
  "underscoreOK s0 =
     (let s = (if length s0 \<ge> 1 \<and> (hd s0 = CHR ''-'' \<or> hd s0 = CHR ''+'') then tl s0 else s0)
      in if length s \<ge> 2 \<and> s ! 0 = CHR ''0''
            \<and> (lower (s ! 1) = CHR ''b'' \<or> lower (s ! 1) = CHR ''o'' \<or> lower (s ! 1) = CHR ''x'')
         then underscore_loop (lower (s ! 1) = CHR ''x'') CHR ''0'' (drop 2 s)
         else underscore_loop False CHR ''^'' s)"

text \<open>The base and the digits of a non-empty string read with base 0.\<close>

definition base_prefix :: "string \<Rightarrow> nat \<times> string" where
  "base_prefix s =
     (if s ! 0 = CHR ''0'' then
        (if length s \<ge> 3 \<and> lower (s ! 1) = CHR ''b'' then (2, drop 2 s)
         else if length s \<ge> 3 \<and> lower (s ! 1) = CHR ''o'' then (8, drop 2 s)
         else if length s \<ge> 3 \<and> lower (s ! 1) = CHR ''x'' then (16, drop 2 s)
         else (8, drop 1 s))
      else (10, s))"

definition maxUint64 :: uint64 where
  "maxUint64 = 18446744073709551615"

text \<open>
  \<^verbatim>\<open>strconv.ParseUint(s, base, bitSize)\<close>. On an error Go also returns a number (0 or
  the largest value); both callers in these sources drop it, and so does the model.
\<close>

definition ParseUint :: "string \<Rightarrow> nat \<Rightarrow> nat \<Rightarrow> NumError + uint64" where
  "ParseUint s base bitSize =
     (if s = [] then Inl ErrSyntax
      else case (if 2 \<le> base \<and> base \<le> 36 then Some (base, s)
                 else if base = 0 then Some (base_prefix s)
                 else None) of
        None \<Rightarrow> Inl ErrBase
      | Some (b, ds) \<Rightarrow>
          if bitSize > 64 then Inl ErrBitSize
          else
            let bits = (if bitSize = 0 then 64 else bitSize);
                cutoff = maxUint64 div of_nat b + 1;
                maxVal = push_bit bits 1 - 1
            in case parse_digits b (base = 0) cutoff maxVal ds False 0 of
                 Inl e \<Rightarrow> Inl e
               | Inr (n, underscores) \<Rightarrow>
                   if underscores \<and> \<not> underscoreOK s then Inl ErrSyntax else Inr n)"

text \<open>
  The number a string of digits denotes in base \<open>b\<close>, most significant digit first,
  continuing from \<open>a\<close>; and whether a byte is a digit of base \<open>b\<close>.
\<close>

definition digits_val :: "nat \<Rightarrow> nat \<Rightarrow> string \<Rightarrow> nat" where
  "digits_val b a cs = foldl (\<lambda>a c. a * b + the (digit_of c)) a cs"

definition is_digit :: "nat \<Rightarrow> char \<Rightarrow> bool" where
  "is_digit b c = (case digit_of c of Some d \<Rightarrow> d < b | None \<Rightarrow> False)"

section \<open>Errors\<close>

text \<open>
  The two sentinel errors of the sources, and \<^verbatim>\<open>fmt.Errorf\<close> with the message it
  formats.
\<close>

datatype error = ErrNoRPCsFound | ErrChainNotFound | Errorf string

section \<open>Package rpc: the endpoint prober\<close>

text \<open>A JSON value: what \<^verbatim>\<open>Result any\<close> holds after decoding, and what the cache file stores.\<close>

datatype json =
    JNull
  | JBool bool
  | JNum int
  | JStr string
  | JArr "json list"
  | JObj "(string \<times> json) list"

record RPCError =
  Code :: int
  Message :: string

record RPCResponse =
  JSONRPC :: string
  Result :: json
  Error :: "RPCError option"
  ID :: int

text \<open>
  What one HTTP probe meets, in the order the source checks it: marshalling the
  request, building it, sending it (any transport error, the timeout included), then
  the status code and the decoded body (\<open>None\<close> when decoding fails).
\<close>

datatype http_exchange =
    MarshalFailed
  | NewRequestFailed
  | DoFailed
  | Responded int "RPCResponse option"

text \<open>The same for a WebSocket probe: parsing the URL, dialling, writing, reading.\<close>

datatype ws_exchange =
    ParseURLFailed
  | DialFailed
  | WriteJSONFailed
  | ReadJSONFailed
  | Received RPCResponse

definition isHTTPRPCWorking :: "http_exchange \<Rightarrow> uint64 \<Rightarrow> bool" where
  "isHTTPRPCWorking exch expectedChainID =
     (case exch of
        MarshalFailed \<Rightarrow> False
      | NewRequestFailed \<Rightarrow> False
      | DoFailed \<Rightarrow> False
      | Responded statusCode body \<Rightarrow>
          if statusCode \<noteq> 200 then False
          else case body of
            None \<Rightarrow> False
          | Some rpcResp \<Rightarrow>
              if Error rpcResp \<noteq> None then False
              else case Result rpcResp of
                JStr chainIDHex \<Rightarrow>
                  (case ParseUint chainIDHex 0 64 of
                     Inl err \<Rightarrow> False
                   | Inr chainID \<Rightarrow> chainID = expectedChainID)
              | _ \<Rightarrow> False)"

definition isWebSocketRPCWorking :: "ws_exchange \<Rightarrow> uint64 \<Rightarrow> bool" where
  "isWebSocketRPCWorking exch expectedChainID =
     (case exch of
        ParseURLFailed \<Rightarrow> False
      | DialFailed \<Rightarrow> False
      | WriteJSONFailed \<Rightarrow> False
      | ReadJSONFailed \<Rightarrow> False
      | Received rpcResp \<Rightarrow>
          if Error rpcResp \<noteq> None then False
          else case Result rpcResp of
            JStr chainIDHex \<Rightarrow>
              (case ParseUint chainIDHex 0 64 of
                 Inl err \<Rightarrow> False
               | Inr chainID \<Rightarrow> chainID = expectedChainID)
          | _ \<Rightarrow> False)"

text \<open>\<^verbatim>\<open>isWebSocketURL\<close> of package rpc.\<close>

definition isWebSocketURL :: "string \<Rightarrow> bool" where
  "isWebSocketURL rpcURL = HasPrefix rpcURL ''wss://''"

text \<open>\<^verbatim>\<open>isWebSocketURL\<close> of package main, which filters the URLs handed to the prober.\<close>

definition main_isWebSocketURL :: "string \<Rightarrow> bool" where
  "main_isWebSocketURL url = (HasPrefix url ''ws://'' \<or> HasPrefix url ''wss://'')"

text \<open>The network as the prober meets it: what each URL answers over each transport.\<close>

record network =
  http_of :: "string \<Rightarrow> http_exchange"
  ws_of :: "string \<Rightarrow> ws_exchange"

datatype transport = OverWebSocket | OverHTTP

definition transport_of :: "string \<Rightarrow> transport" where
  "transport_of rpcURL = (if isWebSocketURL rpcURL then OverWebSocket else OverHTTP)"

definition isRPCWorkingWithTimeout :: "network \<Rightarrow> string \<Rightarrow> uint64 \<Rightarrow> bool" where
  "isRPCWorkingWithTimeout net rpcURL expectedChainID =
     (if isWebSocketURL rpcURL then isWebSocketRPCWorking (ws_of net rpcURL) expectedChainID
      else isHTTPRPCWorking (http_of net rpcURL) expectedChainID)"

text \<open>
  \<^verbatim>\<open>FindAllWorkingRPCs\<close> and \<^verbatim>\<open>FindRandomWorkingRPC\<close>. Their first step,
  \<^verbatim>\<open>findWorkingRPCsConcurrently\<close>, races goroutines against a timer; the list it
  returns is the argument \<open>workingRPCs\<close>. \<open>draw\<close> is the number the random source
  yields, which \<^verbatim>\<open>Intn\<close> reduces below the length.
\<close>

definition FindAllWorkingRPCs :: "string list \<Rightarrow> error + string list" where
  "FindAllWorkingRPCs workingRPCs =
     (if length workingRPCs = 0 then Inl ErrNoRPCsFound else Inr workingRPCs)"

definition FindRandomWorkingRPC :: "string list \<Rightarrow> nat \<Rightarrow> error + string" where
  "FindRandomWorkingRPC workingRPCs draw =
     (if length workingRPCs = 0 then Inl ErrNoRPCsFound
      else let randomIndex = draw mod length workingRPCs in Inr (workingRPCs ! randomIndex))"

text \<open>
  A working endpoint as the specification words it: the result string is read as a
  hex-prefixed or as a decimal integer. Compared with \<^const>\<open>isHTTPRPCWorking\<close> below.
\<close>

definition spec_integer :: "string \<Rightarrow> nat option" where
  "spec_integer s =
     (if (HasPrefix s ''0x'' \<or> HasPrefix s ''0X'') \<and> drop 2 s \<noteq> [] \<and> list_all (is_digit 16) (drop 2 s)
        then Some (digits_val 16 0 (drop 2 s))
      else if s \<noteq> [] \<and> list_all (is_digit 10) s then Some (digits_val 10 0 s)
      else None)"

definition spec_response_working :: "RPCResponse \<Rightarrow> uint64 \<Rightarrow> bool" where
  "spec_response_working rpcResp expectedChainID =
     (Error rpcResp = None
      \<and> (case Result rpcResp of
            JStr s \<Rightarrow> spec_integer s = Some (unat expectedChainID)
          | _ \<Rightarrow> False))"

definition spec_http_working :: "http_exchange \<Rightarrow> uint64 \<Rightarrow> bool" where
  "spec_http_working exch expectedChainID =
     (case exch of
        Responded statusCode (Some rpcResp) \<Rightarrow>
          statusCode = 200 \<and> spec_response_working rpcResp expectedChainID
      | _ \<Rightarrow> False)"

section \<open>Package chain: name resolution\<close>

text \<open>\<open>tbl\<close> is the lower-case mapping of Go's Unicode case table.\<close>

definition normalizeChainName :: "(rune \<Rightarrow> rune) \<Rightarrow> string \<Rightarrow> string" where
  "normalizeChainName tbl name = ReplaceAll (ToLower tbl (TrimSpace name)) CHR '' '' CHR ''-''"

text \<open>
  \<^verbatim>\<open>NameToIdMap\<close>, a Go map, as the list of its entries in the order \<^verbatim>\<open>range\<close> visits
  them (which Go leaves open); its keys are pairwise distinct. \<^verbatim>\<open>m[k]\<close> is \<open>map_of\<close>,
  with the zero value for a missing key.
\<close>

type_synonym NameToIdMap = "(string \<times> uint64) list"

definition index_or_zero :: "NameToIdMap \<Rightarrow> string \<Rightarrow> uint64" where
  "index_or_zero nameMapping key = (case map_of nameMapping key of Some v \<Rightarrow> v | None \<Rightarrow> 0)"

text \<open>The first loop of \<^verbatim>\<open>findChainIdByPartialMatch\<close>.\<close>

definition matchingKeys :: "NameToIdMap \<Rightarrow> string \<Rightarrow> string list" where
  "matchingKeys nameMapping name = filter (\<lambda>key. Contains key name) (map fst nameMapping)"

definition findChainIdByPartialMatch :: "NameToIdMap \<Rightarrow> string \<Rightarrow> error + uint64" where
  "findChainIdByPartialMatch nameMapping name =
     (let keys = matchingKeys nameMapping name in
      if length keys = 1 then Inr (index_or_zero nameMapping (keys ! 0))
      else if length keys > 1 then
        (let errMsg = ''found multiple chains matching '' @ [CHR 0x27] @ name @ [CHR 0x27] @ '':''
                        @ [CHR 0x0A] @ concat (map (\<lambda>key. ''- '' @ key @ [CHR 0x0A]) keys)
         in Inl (Errorf (errMsg @ '' '' @ [CHR 0x0A] @ ''Please specify a more precise name'')))
      else Inl (Errorf (''chain not found for name '' @ [CHR 0x27] @ name @ [CHR 0x27])))"

text \<open>
  \<^verbatim>\<open>findChainIDByName\<close>. \<open>loaded\<close> is what \<^verbatim>\<open>loadNameMapping\<close> returned: the name
  index of the cache file, or the error of opening or decoding it.
\<close>

definition findChainIDByName :: "error + NameToIdMap \<Rightarrow> string \<Rightarrow> error + uint64" where
  "findChainIDByName loaded normalizedName =
     (case loaded of
        Inl err \<Rightarrow> Inl err
      | Inr nameMapping \<Rightarrow>
          (case map_of nameMapping normalizedName of
             Some chainID \<Rightarrow> Inr chainID
           | None \<Rightarrow>
               (case findChainIdByPartialMatch nameMapping (''ethereum-'' @ normalizedName) of
                  Inr chainId \<Rightarrow> Inr chainId
                | Inl e1 \<Rightarrow>
                    (case findChainIdByPartialMatch nameMapping (normalizedName @ ''-mainnet'') of
                       Inr chainId \<Rightarrow> Inr chainId
                     | Inl e2 \<Rightarrow> findChainIdByPartialMatch nameMapping normalizedName))))"

text \<open>
  The four tiers as the specification words them, with tiers 2 and 3 as exact key
  matches; compared with \<^const>\<open>findChainIDByName\<close> below.
\<close>

definition spec_four_tiers :: "NameToIdMap \<Rightarrow> string \<Rightarrow> error + uint64" where
  "spec_four_tiers nameMapping normalized =
     (case map_of nameMapping normalized of
        Some chainID \<Rightarrow> Inr chainID
      | None \<Rightarrow>
          (case map_of nameMapping (''ethereum-'' @ normalized) of
             Some chainID \<Rightarrow> Inr chainID
           | None \<Rightarrow>
               (case map_of nameMapping (normalized @ ''-mainnet'') of
                  Some chainID \<Rightarrow> Inr chainID
                | None \<Rightarrow> findChainIdByPartialMatch nameMapping normalized)))"

section \<open>The prober: theorems\<close>

lemma HasPrefix_ws: "HasPrefix ''ws://node.example:8546'' ''ws://''"
  by (simp add: HasPrefix_def)

lemma not_HasPrefix_wss: "\<not> HasPrefix ''ws://node.example:8546'' ''wss://''"
  by (simp add: HasPrefix_def)

text \<open>
  C4. The prober sends a URL over WebSocket exactly when it starts with \<^verbatim>\<open>wss://\<close>. A
  URL with the scheme \<^verbatim>\<open>ws\<close>, which the URL filter of \<^verbatim>\<open>main.go\<close> counts as a
  WebSocket URL, is probed by an HTTP POST.
\<close>

theorem C4_ws_scheme_probed_over_http:
  "main_isWebSocketURL ''ws://node.example:8546''
   \<and> transport_of ''ws://node.example:8546'' = OverHTTP
   \<and> isRPCWorkingWithTimeout net ''ws://node.example:8546'' expectedChainID
       = isHTTPRPCWorking (http_of net ''ws://node.example:8546'') expectedChainID"
  using HasPrefix_ws not_HasPrefix_wss
  by (simp add: main_isWebSocketURL_def transport_of_def isRPCWorkingWithTimeout_def
      isWebSocketURL_def)

text \<open>
  C7. Whatever list the concurrent engine collected: \<^verbatim>\<open>FindAllWorkingRPCs\<close> fails,
  with \<^verbatim>\<open>ErrNoRPCsFound\<close>, exactly when the list is empty, and otherwise returns the
  list itself; \<^verbatim>\<open>FindRandomWorkingRPC\<close> fails, with the same error, exactly when the
  list is empty, and otherwise returns one of its elements.
\<close>

theorem C7_working_set_selection:
  "(FindAllWorkingRPCs W = Inl ErrNoRPCsFound \<longleftrightarrow> W = [])
   \<and> (isl (FindAllWorkingRPCs W) \<longleftrightarrow> W = [])
   \<and> (W \<noteq> [] \<longrightarrow> FindAllWorkingRPCs W = Inr W)
   \<and> (FindRandomWorkingRPC W draw = Inl ErrNoRPCsFound \<longleftrightarrow> W = [])
   \<and> (isl (FindRandomWorkingRPC W draw) \<longleftrightarrow> W = [])
   \<and> (W \<noteq> [] \<longrightarrow> (\<exists>u. u \<in> set W \<and> FindRandomWorkingRPC W draw = Inr u))"
  by (simp add: FindAllWorkingRPCs_def FindRandomWorkingRPC_def Let_def)

theorem C7_working_set_selection_witness:
  "FindAllWorkingRPCs [''https://a.example'', ''wss://b.example'']
     = Inr [''https://a.example'', ''wss://b.example'']
   \<and> (\<exists>u. u \<in> set [''https://a.example'', ''wss://b.example'']
        \<and> FindRandomWorkingRPC [''https://a.example'', ''wss://b.example''] 7 = Inr u)
   \<and> FindAllWorkingRPCs [] = Inl ErrNoRPCsFound
   \<and> FindRandomWorkingRPC [] 7 = Inl ErrNoRPCsFound"
  using C7_working_set_selection [of "[''https://a.example'', ''wss://b.example'']" 7]
    C7_working_set_selection [of "[]" 7]
  by simp

lemma digits_val_Cons: "digits_val b a (c # cs) = digits_val b (a * b + the (digit_of c)) cs"
  by (simp add: digits_val_def)

lemma digits_val_ge: "1 \<le> b \<Longrightarrow> a \<le> digits_val b a cs"
proof (induction cs arbitrary: a)
  case Nil
  then show ?case by (simp add: digits_val_def)
next
  case (Cons c cs)
  have "a \<le> a * b" using Cons.prems by simp
  also have "\<dots> \<le> a * b + the (digit_of c)" by simp
  also have "\<dots> \<le> digits_val b (a * b + the (digit_of c)) cs" using Cons by blast
  finally show ?case by (simp add: digits_val_Cons)
qed

lemma unat_maxUint64: "unat maxUint64 = 2 ^ 64 - 1"
  by (simp add: maxUint64_def)

lemma parse_digits_value:
  assumes "2 \<le> b" and "b \<le> 36"
    and "list_all (\<lambda>c. \<exists>d. digit_of c = Some d \<and> d < b) cs"
    and "digits_val b (unat n) cs < 2 ^ 64"
  shows "parse_digits b base0 (maxUint64 div of_nat b + 1) maxUint64 cs u n
           = Inr (of_nat (digits_val b (unat n) cs), u)"
  using assms(3,4)
proof (induction cs arbitrary: n)
  case Nil
  then show ?case by (simp add: digits_val_def)
next
  case (Cons c cs)
  from Cons.prems(1) obtain d where d: "digit_of c = Some d" and db: "d < b"
    and rest: "list_all (\<lambda>c. \<exists>d. digit_of c = Some d \<and> d < b) cs" by auto
  have us: "c \<noteq> CHR ''_''"
  proof
    assume "c = CHR ''_''"
    moreover have "digit_of CHR ''_'' = None" by code_simp
    ultimately show False using d by simp
  qed
  let ?a = "unat n * b + d"
  have val: "digits_val b ?a cs < 2 ^ 64"
    using Cons.prems(2) d by (simp add: digits_val_Cons)
  have small: "?a < 2 ^ 64"
    using digits_val_ge [of b ?a cs] val assms(1) by linarith
  have ub: "unat (of_nat b :: uint64) = b"
    using assms(2) by (simp add: unat_of_nat)
  have ud: "unat (of_nat d :: uint64) = d"
    using db assms(2) by (simp add: unat_of_nat)
  have mul: "unat (n * of_nat b) = unat n * b"
    using small ub by (simp add: unat_word_ariths)
  have add: "unat (n * of_nat b + of_nat d) = ?a"
    using small mul ud by (simp add: unat_word_ariths)
  have cut: "unat (maxUint64 div of_nat b + 1) = (2 ^ 64 - 1) div b + 1"
  proof -
    have "unat (maxUint64 div of_nat b) = (2 ^ 64 - 1) div b"
      by (simp add: unat_div ub unat_maxUint64)
    moreover have "(2 ^ 64 - 1) div b + 1 < (2::nat) ^ 64"
    proof -
      have "((2::nat) ^ 64 - 1) div b \<le> (2 ^ 64 - 1) div 2"
        using assms(1) by (intro div_le_mono2) simp_all
      then show ?thesis by simp
    qed
    ultimately show ?thesis by (simp add: unat_word_ariths)
  qed
  have nlt: "\<not> n \<ge> maxUint64 div of_nat b + 1"
  proof -
    have "unat n * b < 2 ^ 64" using small by simp
    then have "unat n * b \<le> 2 ^ 64 - 1" by simp
    then have "unat n \<le> (2 ^ 64 - 1) div b"
      using assms(1) by (simp add: less_eq_div_iff_mult_less_eq)
    then show ?thesis by (simp add: word_le_nat_alt cut)
  qed
  have nov: "\<not> (n * of_nat b + of_nat d < n * of_nat b)"
    by (simp add: word_less_nat_alt add mul)
  have nmax: "\<not> (n * of_nat b + of_nat d > maxUint64)"
    by (simp add: word_less_nat_alt unat_maxUint64 add) (use small in simp)
  have "parse_digits b base0 (maxUint64 div of_nat b + 1) maxUint64 (c # cs) u n
      = parse_digits b base0 (maxUint64 div of_nat b + 1) maxUint64 cs u (n * of_nat b + of_nat d)"
    using us d db nlt nov nmax by (simp add: Let_def)
  also have "\<dots> = Inr (of_nat (digits_val b (unat (n * of_nat b + of_nat d)) cs), u)"
    using Cons.IH [OF rest, of "n * of_nat b + of_nat d"] val add by simp
  finally show ?case using d by (simp add: digits_val_Cons add)
qed


lemma response_check_iff:
  "(if Error rpcResp \<noteq> None then False
    else case Result rpcResp of
      JStr chainIDHex \<Rightarrow>
        (case ParseUint chainIDHex 0 64 of Inl err \<Rightarrow> False | Inr chainID \<Rightarrow> chainID = e)
    | _ \<Rightarrow> False)
   \<longleftrightarrow> (Error rpcResp = None \<and> (\<exists>s. Result rpcResp = JStr s \<and> ParseUint s 0 64 = Inr e))"
  by (cases "Result rpcResp") (auto split: sum.splits)

lemma isHTTPRPCWorking_iff:
  "isHTTPRPCWorking x e \<longleftrightarrow>
     (\<exists>rpcResp s. x = Responded 200 (Some rpcResp) \<and> Error rpcResp = None
        \<and> Result rpcResp = JStr s \<and> ParseUint s 0 64 = Inr e)"
proof (cases x)
  case (Responded st body)
  show ?thesis
  proof (cases body)
    case None
    with Responded show ?thesis by (simp add: isHTTPRPCWorking_def)
  next
    case (Some r)
    with Responded show ?thesis
      using response_check_iff [of r e] by (auto simp: isHTTPRPCWorking_def)
  qed
qed (simp_all add: isHTTPRPCWorking_def)

lemma isWebSocketRPCWorking_iff:
  "isWebSocketRPCWorking y e \<longleftrightarrow>
     (\<exists>rpcResp s. y = Received rpcResp \<and> Error rpcResp = None
        \<and> Result rpcResp = JStr s \<and> ParseUint s 0 64 = Inr e)"
proof (cases y)
  case (Received r)
  then show ?thesis
    using response_check_iff [of r e] by (auto simp: isWebSocketRPCWorking_def)
qed (simp_all add: isWebSocketRPCWorking_def)

lemma maxVal_64: "push_bit 64 (1::uint64) - 1 = maxUint64"
  by (simp add: maxUint64_def)

lemma is_digit_list:
  "list_all (is_digit b) ds \<Longrightarrow> list_all (\<lambda>c. \<exists>d. digit_of c = Some d \<and> d < b) ds"
  by (induction ds) (auto simp: is_digit_def split: option.splits)

lemma lower_x: "lower CHR ''x'' = CHR ''x''" "lower CHR ''X'' = CHR ''x''"
  by code_simp+

lemma ParseUint_base0_decimal:
  assumes "ds \<noteq> []" and "hd ds \<noteq> CHR ''0''" and "list_all (is_digit 10) ds"
    and "digits_val 10 0 ds < 2 ^ 64"
  shows "ParseUint ds 0 64 = Inr (of_nat (digits_val 10 0 ds))"
proof -
  have bp: "base_prefix ds = (10, ds)"
    using assms(1,2) by (cases ds) (simp_all add: base_prefix_def)
  have "parse_digits 10 True (maxUint64 div of_nat 10 + 1) maxUint64 ds False 0
      = Inr (of_nat (digits_val 10 (unat (0::uint64)) ds), False)"
    by (rule parse_digits_value) (use assms is_digit_list in simp_all)
  then show ?thesis
    using assms(1) by (simp add: ParseUint_def bp maxUint64_def)
qed

lemma ParseUint_base0_hex:
  assumes "ds \<noteq> []" and "list_all (is_digit 16) ds" and "digits_val 16 0 ds < 2 ^ 64"
    and "x = CHR ''x'' \<or> x = CHR ''X''"
  shows "ParseUint (CHR ''0'' # x # ds) 0 64 = Inr (of_nat (digits_val 16 0 ds))"
proof -
  have l: "lower x = CHR ''x''" using assms(4) lower_x by auto
  have "length (CHR ''0'' # x # ds) \<ge> 3" using assms(1) by (cases ds) simp_all
  then have bp: "base_prefix (CHR ''0'' # x # ds) = (16, ds)"
    by (simp add: base_prefix_def l)
  have "parse_digits 16 True (maxUint64 div of_nat 16 + 1) maxUint64 ds False 0
      = Inr (of_nat (digits_val 16 (unat (0::uint64)) ds), False)"
    by (rule parse_digits_value) (use assms is_digit_list in simp_all)
  then show ?thesis
    by (simp add: ParseUint_def bp maxUint64_def)
qed

text \<open>
  C1, as the code has it. An HTTP probe answers true exactly when the request got a
  response with status 200 whose body decoded, with no \<^verbatim>\<open>error\<close> field and a string
  \<^verbatim>\<open>result\<close> that \<^verbatim>\<open>strconv.ParseUint(s, 0, 64)\<close> reads as \<^verbatim>\<open>expectedChainID\<close>; a
  WebSocket probe exactly when a response was received with the same two properties.
  Every other outcome is the boolean false. Base 0 is Go's literal syntax: \<^verbatim>\<open>0x\<close> hex,
  \<^verbatim>\<open>0b\<close> binary, \<^verbatim>\<open>0o\<close> or a leading \<^verbatim>\<open>0\<close> octal, decimal otherwise, underscores between
  digits. In particular a \<^verbatim>\<open>0x\<close>-prefixed hex string, and a decimal string that does
  not start with \<^verbatim>\<open>0\<close>, are read as the number they denote when it fits 64 bits.
\<close>

theorem C1_probe_outcome:
  "(isHTTPRPCWorking x e \<longleftrightarrow>
      (\<exists>rpcResp s. x = Responded 200 (Some rpcResp) \<and> Error rpcResp = None
         \<and> Result rpcResp = JStr s \<and> ParseUint s 0 64 = Inr e))
   \<and> (isWebSocketRPCWorking y e \<longleftrightarrow>
      (\<exists>rpcResp s. y = Received rpcResp \<and> Error rpcResp = None
         \<and> Result rpcResp = JStr s \<and> ParseUint s 0 64 = Inr e))
   \<and> (ds \<noteq> [] \<and> list_all (is_digit 16) ds \<and> digits_val 16 0 ds < 2 ^ 64 \<longrightarrow>
        ParseUint (''0x'' @ ds) 0 64 = Inr (of_nat (digits_val 16 0 ds)))
   \<and> (ds \<noteq> [] \<and> hd ds \<noteq> CHR ''0'' \<and> list_all (is_digit 10) ds \<and> digits_val 10 0 ds < 2 ^ 64 \<longrightarrow>
        ParseUint ds 0 64 = Inr (of_nat (digits_val 10 0 ds)))"
  using isHTTPRPCWorking_iff [of x e] isWebSocketRPCWorking_iff [of y e]
    ParseUint_base0_hex [of ds "CHR ''x''"] ParseUint_base0_decimal [of ds]
  by simp

text \<open>
  The result string \<^verbatim>\<open>0b101\<close> is neither hex-prefixed nor decimal, and the code
  accepts it for chain 5; the decimal string \<^verbatim>\<open>010\<close> denotes 10, and the code, which
  reads it as octal 8, rejects it for chain 10.
\<close>

lemma ParseUint_0b101: "ParseUint ''0b101'' 0 64 = Inr 5"
  by code_simp

lemma ParseUint_010: "ParseUint ''010'' 0 64 = Inr 8"
  by code_simp

lemma spec_integer_0b101: "spec_integer ''0b101'' = None"
  by code_simp

lemma spec_integer_010: "spec_integer ''010'' = Some 10"
  by code_simp

theorem C1_hex_or_decimal_counterexample:
  "isHTTPRPCWorking
     (Responded 200 (Some \<lparr>JSONRPC = ''2.0'', Result = JStr ''0b101'', Error = None, ID = 1\<rparr>)) 5
   \<and> \<not> spec_http_working
     (Responded 200 (Some \<lparr>JSONRPC = ''2.0'', Result = JStr ''0b101'', Error = None, ID = 1\<rparr>)) 5
   \<and> \<not> isHTTPRPCWorking
     (Responded 200 (Some \<lparr>JSONRPC = ''2.0'', Result = JStr ''010'', Error = None, ID = 1\<rparr>)) 10
   \<and> spec_http_working
     (Responded 200 (Some \<lparr>JSONRPC = ''2.0'', Result = JStr ''010'', Error = None, ID = 1\<rparr>)) 10"
  by (simp add: isHTTPRPCWorking_def spec_http_working_def spec_response_working_def
      ParseUint_0b101 ParseUint_010 spec_integer_0b101 spec_integer_010)

theorem C1_probe_outcome_witness:
  "isHTTPRPCWorking
     (Responded 200 (Some \<lparr>JSONRPC = ''2.0'', Result = JStr ''0x1'', Error = None, ID = 1\<rparr>)) 1
   \<and> isWebSocketRPCWorking
     (Received \<lparr>JSONRPC = ''2.0'', Result = JStr ''0x1'', Error = None, ID = 1\<rparr>) 1
   \<and> \<not> isHTTPRPCWorking
     (Responded 503 (Some \<lparr>JSONRPC = ''2.0'', Result = JStr ''0x1'', Error = None, ID = 1\<rparr>)) 1
   \<and> \<not> isWebSocketRPCWorking DialFailed 1
   \<and> ParseUint ''0x1'' 0 64 = Inr 1"
proof -
  let ?r = "\<lparr>JSONRPC = ''2.0'', Result = JStr ''0x1'', Error = None, ID = 1\<rparr>"
  have v: "digits_val 16 0 ''1'' = 1" and l: "list_all (is_digit 16) ''1''"
    by (simp_all add: digits_val_def is_digit_def digit_of_def)
  note t = C1_probe_outcome [of "Responded 200 (Some ?r)" 1 "Received ?r" "''1''"]
  from t v l have p: "ParseUint ''0x1'' 0 64 = Inr 1" by simp
  from t p have "isHTTPRPCWorking (Responded 200 (Some ?r)) 1"
    and "isWebSocketRPCWorking (Received ?r) 1" by simp_all
  moreover from C1_probe_outcome [of "Responded 503 (Some ?r)" 1 DialFailed "''1''"]
  have "\<not> isHTTPRPCWorking (Responded 503 (Some ?r)) 1"
    and "\<not> isWebSocketRPCWorking DialFailed 1" by simp_all
  ultimately show ?thesis using p by simp
qed

section \<open>Name resolution: theorems\<close>

lemma HasPrefix_iff: "HasPrefix s pre \<longleftrightarrow> (\<exists>suf. s = pre @ suf)"
proof
  assume "HasPrefix s pre"
  then have "s = pre @ drop (length pre) s"
    by (metis HasPrefix_def append_take_drop_id)
  then show "\<exists>suf. s = pre @ suf" ..
next
  assume "\<exists>suf. s = pre @ suf"
  then show "HasPrefix s pre" by (auto simp: HasPrefix_def)
qed

lemma Contains_iff: "Contains s substr \<longleftrightarrow> (\<exists>pre suf. s = pre @ substr @ suf)"
proof (induction s)
  case Nil
  then show ?case by auto
next
  case (Cons c cs)
  show ?case
  proof
    assume "Contains (c # cs) substr"
    then consider "HasPrefix (c # cs) substr" | "Contains cs substr" by auto
    then show "\<exists>pre suf. c # cs = pre @ substr @ suf"
    proof cases
      case 1
      then obtain suf where "c # cs = substr @ suf" by (auto simp: HasPrefix_iff)
      then have "c # cs = [] @ substr @ suf" by simp
      then show ?thesis by blast
    next
      case 2
      then obtain pre suf where "cs = pre @ substr @ suf" using Cons.IH by auto
      then have "c # cs = (c # pre) @ substr @ suf" by simp
      then show ?thesis by blast
    qed
  next
    assume "\<exists>pre suf. c # cs = pre @ substr @ suf"
    then obtain pre suf where e: "c # cs = pre @ substr @ suf" by auto
    show "Contains (c # cs) substr"
    proof (cases pre)
      case Nil
      with e have "HasPrefix (c # cs) substr" by (auto simp: HasPrefix_iff)
      then show ?thesis by simp
    next
      case (Cons p ps)
      with e have "cs = ps @ substr @ suf" by simp
      then have "Contains cs substr" using Cons.IH by blast
      then show ?thesis by simp
    qed
  qed
qed

lemma Contains_middle: "Contains (pre @ substr @ suf) substr"
  by (auto simp: Contains_iff)

lemma set_matchingKeys:
  "set (matchingKeys m q) = {k \<in> fst ` set m. Contains k q}"
  by (auto simp: matchingKeys_def)

lemma distinct_matchingKeys: "distinct (map fst m) \<Longrightarrow> distinct (matchingKeys m q)"
  by (simp add: matchingKeys_def)

lemma length_matchingKeys:
  "distinct (map fst m) \<Longrightarrow> length (matchingKeys m q) = card {k \<in> fst ` set m. Contains k q}"
  using distinct_card [OF distinct_matchingKeys, of m q] by (simp add: set_matchingKeys)

lemma concat_lines_contains:
  "k \<in> set ks \<Longrightarrow> \<exists>pre suf. concat (map (\<lambda>key. ''- '' @ key @ [CHR 0x0A]) ks)
      = pre @ (''- '' @ k @ [CHR 0x0A]) @ suf"
proof (induction ks)
  case Nil
  then show ?case by simp
next
  case (Cons a ks)
  show ?case
  proof (cases "k = a")
    case True
    have "concat (map (\<lambda>key. ''- '' @ key @ [CHR 0x0A]) (a # ks))
        = [] @ (''- '' @ k @ [CHR 0x0A]) @ concat (map (\<lambda>key. ''- '' @ key @ [CHR 0x0A]) ks)"
      using True by simp
    then show ?thesis by blast
  next
    case False
    with Cons obtain pre suf where
      "concat (map (\<lambda>key. ''- '' @ key @ [CHR 0x0A]) ks) = pre @ (''- '' @ k @ [CHR 0x0A]) @ suf"
      by auto
    then have "concat (map (\<lambda>key. ''- '' @ key @ [CHR 0x0A]) (a # ks))
        = ((''- '' @ a @ [CHR 0x0A]) @ pre) @ (''- '' @ k @ [CHR 0x0A]) @ suf"
      by simp
    then show ?thesis by blast
  qed
qed

lemma partial_match_none:
  "matchingKeys m q = [] \<Longrightarrow>
   findChainIdByPartialMatch m q = Inl (Errorf (''chain not found for name '' @ [CHR 0x27] @ q @ [CHR 0x27]))"
  by (simp add: findChainIdByPartialMatch_def)

lemma partial_match_one:
  "matchingKeys m q = [k] \<Longrightarrow> findChainIdByPartialMatch m q = Inr (index_or_zero m k)"
  by (simp add: findChainIdByPartialMatch_def)

lemma partial_match_many:
  assumes "length (matchingKeys m q) > 1"
  shows "\<exists>msg. findChainIdByPartialMatch m q = Inl (Errorf msg)
           \<and> (\<forall>k \<in> set (matchingKeys m q). Contains msg (''- '' @ k @ [CHR 0x0A]))"
proof -
  define body where "body = concat (map (\<lambda>key. ''- '' @ key @ [CHR 0x0A]) (matchingKeys m q))"
  define pre0 where "pre0 = ''found multiple chains matching '' @ [CHR 0x27] @ q @ [CHR 0x27] @ '':'' @ [CHR 0x0A]"
  define post0 where "post0 = '' '' @ [CHR 0x0A] @ ''Please specify a more precise name''"
  have r: "findChainIdByPartialMatch m q = Inl (Errorf (pre0 @ body @ post0))"
    using assms by (simp add: findChainIdByPartialMatch_def Let_def body_def pre0_def post0_def)
  have "Contains (pre0 @ body @ post0) (''- '' @ k @ [CHR 0x0A])" if "k \<in> set (matchingKeys m q)" for k
  proof -
    from concat_lines_contains [OF that] obtain pre suf where
      "body = pre @ (''- '' @ k @ [CHR 0x0A]) @ suf" unfolding body_def by blast
    then have "pre0 @ body @ post0 = (pre0 @ pre) @ (''- '' @ k @ [CHR 0x0A]) @ (suf @ post0)" by simp
    then show ?thesis by (metis Contains_middle)
  qed
  with r show ?thesis by blast
qed

text \<open>
  C5. Over a name index (keys pairwise distinct) and a query \<open>q\<close>, with \<open>K\<close> the set of
  keys that contain \<open>q\<close>: when \<open>K\<close> is empty the result is the error
  \<^verbatim>\<open>chain not found for name 'q'\<close>; when \<open>K\<close> is a single key the result is that
  key's chain ID; when \<open>K\<close> has two or more keys the result is an error whose message
  holds a line \<^verbatim>\<open>- key\<close> for every key of \<open>K\<close>, and never a chain ID.
\<close>

theorem C5_partial_match_outcomes:
  assumes "distinct (map fst m)"
  shows "({k \<in> fst ` set m. Contains k q} = {} \<longrightarrow>
            findChainIdByPartialMatch m q
              = Inl (Errorf (''chain not found for name '' @ [CHR 0x27] @ q @ [CHR 0x27])))
       \<and> (\<forall>k. {k \<in> fst ` set m. Contains k q} = {k} \<longrightarrow>
            (\<exists>chainID. map_of m k = Some chainID \<and> findChainIdByPartialMatch m q = Inr chainID))
       \<and> (card {k \<in> fst ` set m. Contains k q} \<ge> 2 \<longrightarrow>
            (\<exists>msg. findChainIdByPartialMatch m q = Inl (Errorf msg)
               \<and> (\<forall>k \<in> {k \<in> fst ` set m. Contains k q}. Contains msg (''- '' @ k @ [CHR 0x0A]))))"
proof (intro conjI impI allI)
  assume "{k \<in> fst ` set m. Contains k q} = {}"
  then have "set (matchingKeys m q) = {}"
    by (simp only: set_matchingKeys)
  then have "matchingKeys m q = []" by simp
  then show "findChainIdByPartialMatch m q
      = Inl (Errorf (''chain not found for name '' @ [CHR 0x27] @ q @ [CHR 0x27]))"
    by (rule partial_match_none)
next
  fix k
  assume one: "{k \<in> fst ` set m. Contains k q} = {k}"
  then have "set (matchingKeys m q) = {k}" by (simp add: set_matchingKeys)
  moreover have "length (matchingKeys m q) = 1"
    using length_matchingKeys [OF assms, of q] one by simp
  ultimately have mk: "matchingKeys m q = [k]"
    by (cases "matchingKeys m q") auto
  from one have "k \<in> fst ` set m" by blast
  then obtain chainID where v: "map_of m k = Some chainID"
    by (metis domD dom_map_of_conv_image_fst)
  then have "findChainIdByPartialMatch m q = Inr chainID"
    using partial_match_one [OF mk] by (simp add: index_or_zero_def)
  with v show "\<exists>chainID. map_of m k = Some chainID \<and> findChainIdByPartialMatch m q = Inr chainID"
    by blast
next
  assume "card {k \<in> fst ` set m. Contains k q} \<ge> 2"
  then have "length (matchingKeys m q) > 1"
    using length_matchingKeys [OF assms, of q] by simp
  from partial_match_many [OF this]
  show "\<exists>msg. findChainIdByPartialMatch m q = Inl (Errorf msg)
      \<and> (\<forall>k \<in> {k \<in> fst ` set m. Contains k q}. Contains msg (''- '' @ k @ [CHR 0x0A]))"
    by (simp add: set_matchingKeys)
qed

lemma matchingKeys_single_iff:
  assumes "distinct (map fst m)"
  shows "matchingKeys m q = [k] \<longleftrightarrow> {k \<in> fst ` set m. Contains k q} = {k}"
proof
  assume "matchingKeys m q = [k]"
  then have "set (matchingKeys m q) = {k}" by simp
  then show "{k \<in> fst ` set m. Contains k q} = {k}" by (simp only: set_matchingKeys)
next
  assume one: "{k \<in> fst ` set m. Contains k q} = {k}"
  then have "set (matchingKeys m q) = {k}" by (simp add: set_matchingKeys)
  moreover have "length (matchingKeys m q) = 1"
    using length_matchingKeys [OF assms, of q] one by simp
  ultimately show "matchingKeys m q = [k]"
    by (cases "matchingKeys m q") auto
qed

lemma partial_match_Inr_iff:
  assumes "distinct (map fst m)"
  shows "findChainIdByPartialMatch m q = Inr chainID \<longleftrightarrow>
     (\<exists>k. {k \<in> fst ` set m. Contains k q} = {k} \<and> map_of m k = Some chainID)"
proof
  assume r: "findChainIdByPartialMatch m q = Inr chainID"
  then have "length (matchingKeys m q) = 1"
    by (auto simp: findChainIdByPartialMatch_def Let_def split: if_splits)
  then obtain k where mk: "matchingKeys m q = [k]"
    by (cases "matchingKeys m q") auto
  then have K: "{k \<in> fst ` set m. Contains k q} = {k}"
    using matchingKeys_single_iff [OF assms] by simp
  then have "k \<in> fst ` set m" by blast
  then obtain v where v: "map_of m k = Some v"
    by (metis domD dom_map_of_conv_image_fst)
  with r partial_match_one [OF mk] have "v = chainID" by (simp add: index_or_zero_def)
  with K v show "\<exists>k. {k \<in> fst ` set m. Contains k q} = {k} \<and> map_of m k = Some chainID" by blast
next
  assume "\<exists>k. {k \<in> fst ` set m. Contains k q} = {k} \<and> map_of m k = Some chainID"
  then obtain k where K: "{k \<in> fst ` set m. Contains k q} = {k}" and v: "map_of m k = Some chainID"
    by blast
  from K have "matchingKeys m q = [k]" using matchingKeys_single_iff [OF assms] by simp
  from partial_match_one [OF this] v show "findChainIdByPartialMatch m q = Inr chainID"
    by (simp add: index_or_zero_def)
qed

text \<open>
  C3, as the code has it. \<^const>\<open>findChainIDByName\<close> tries four tiers in order. Tier 1
  is the exact key. Tiers 2 and 3 are substring matches, like tier 4: tier 2 answers
  when exactly one key of the index contains \<^verbatim>\<open>"ethereum-" + normalized\<close>, tier 3 when
  exactly one key contains \<^verbatim>\<open>normalized + "-mainnet"\<close>; when neither answers, the
  result is that of the substring match on \<^verbatim>\<open>normalized\<close> itself.
\<close>

theorem C3_four_tiers_substring:
  assumes "distinct (map fst m)"
  shows "(\<forall>chainID. map_of m n = Some chainID \<longrightarrow> findChainIDByName (Inr m) n = Inr chainID)
       \<and> (\<forall>k chainID. map_of m n = None
              \<and> {k \<in> fst ` set m. Contains k (''ethereum-'' @ n)} = {k} \<and> map_of m k = Some chainID
            \<longrightarrow> findChainIDByName (Inr m) n = Inr chainID)
       \<and> (\<forall>k chainID. map_of m n = None
              \<and> card {k \<in> fst ` set m. Contains k (''ethereum-'' @ n)} \<noteq> 1
              \<and> {k \<in> fst ` set m. Contains k (n @ ''-mainnet'')} = {k} \<and> map_of m k = Some chainID
            \<longrightarrow> findChainIDByName (Inr m) n = Inr chainID)
       \<and> (map_of m n = None
              \<and> card {k \<in> fst ` set m. Contains k (''ethereum-'' @ n)} \<noteq> 1
              \<and> card {k \<in> fst ` set m. Contains k (n @ ''-mainnet'')} \<noteq> 1
            \<longrightarrow> findChainIDByName (Inr m) n = findChainIdByPartialMatch m n)"
proof -
  have no: "card {k \<in> fst ` set m. Contains k q} \<noteq> 1 \<Longrightarrow> isl (findChainIdByPartialMatch m q)" for q
    using length_matchingKeys [OF assms, of q]
    by (simp add: findChainIdByPartialMatch_def Let_def)
  have yes: "{k \<in> fst ` set m. Contains k q} = {k} \<Longrightarrow> map_of m k = Some chainID
      \<Longrightarrow> findChainIdByPartialMatch m q = Inr chainID" for q k chainID
    using partial_match_Inr_iff [OF assms, of q chainID] by blast
  show ?thesis
  proof (intro conjI allI impI)
    fix chainID assume "map_of m n = Some chainID"
    then show "findChainIDByName (Inr m) n = Inr chainID"
      by (simp add: findChainIDByName_def)
  next
    fix k chainID
    assume "map_of m n = None
      \<and> {k \<in> fst ` set m. Contains k (''ethereum-'' @ n)} = {k} \<and> map_of m k = Some chainID"
    then show "findChainIDByName (Inr m) n = Inr chainID"
      using yes [of "''ethereum-'' @ n" k chainID] by (simp add: findChainIDByName_def)
  next
    fix k chainID
    assume a: "map_of m n = None
      \<and> card {k \<in> fst ` set m. Contains k (''ethereum-'' @ n)} \<noteq> 1
      \<and> {k \<in> fst ` set m. Contains k (n @ ''-mainnet'')} = {k} \<and> map_of m k = Some chainID"
    then have "isl (findChainIdByPartialMatch m (''ethereum-'' @ n))" using no by blast
    then obtain e where "findChainIdByPartialMatch m (''ethereum-'' @ n) = Inl e"
      by (cases "findChainIdByPartialMatch m (''ethereum-'' @ n)") auto
    then show "findChainIDByName (Inr m) n = Inr chainID"
      using a yes [of "n @ ''-mainnet''" k chainID] by (simp add: findChainIDByName_def)
  next
    assume a: "map_of m n = None
      \<and> card {k \<in> fst ` set m. Contains k (''ethereum-'' @ n)} \<noteq> 1
      \<and> card {k \<in> fst ` set m. Contains k (n @ ''-mainnet'')} \<noteq> 1"
    then have "isl (findChainIdByPartialMatch m (''ethereum-'' @ n))"
      and "isl (findChainIdByPartialMatch m (n @ ''-mainnet''))" using no by blast+
    then obtain e1 e2 where "findChainIdByPartialMatch m (''ethereum-'' @ n) = Inl e1"
      and "findChainIdByPartialMatch m (n @ ''-mainnet'') = Inl e2"
      by (cases "findChainIdByPartialMatch m (''ethereum-'' @ n)";
          cases "findChainIdByPartialMatch m (n @ ''-mainnet'')") auto
    then show "findChainIDByName (Inr m) n = findChainIdByPartialMatch m n"
      using a by (simp add: findChainIDByName_def)
  qed
qed

text \<open>
  With the keys \<^verbatim>\<open>ethereum-sepolia-testnet\<close> and \<^verbatim>\<open>base-sepolia\<close> in the index, the
  query \<^verbatim>\<open>sepolia\<close> is answered by tier 2 of the code, through a key that merely
  contains \<^verbatim>\<open>ethereum-sepolia\<close>; with exact matches in tiers 2 and 3 the query would
  reach tier 4 and be ambiguous.
\<close>

theorem C3_exact_tiers_counterexample:
  "findChainIDByName (Inr [(''ethereum-sepolia-testnet'', 11155111), (''base-sepolia'', 84532)])
      ''sepolia'' = Inr 11155111
   \<and> isl (spec_four_tiers [(''ethereum-sepolia-testnet'', 11155111), (''base-sepolia'', 84532)]
      ''sepolia'')"
  by (simp add: findChainIDByName_def spec_four_tiers_def findChainIdByPartialMatch_def
      matchingKeys_def HasPrefix_def index_or_zero_def)

theorem C3_four_tiers_substring_witness:
  "distinct (map fst [(''ethereum-sepolia-testnet'', 11155111::uint64), (''base-sepolia'', 84532)])
   \<and> findChainIDByName (Inr [(''ethereum-sepolia-testnet'', 11155111), (''base-sepolia'', 84532)])
        ''sepolia'' = Inr 11155111
   \<and> findChainIDByName (Inr [(''ethereum-sepolia-testnet'', 11155111), (''base-sepolia'', 84532)])
        ''base-sepolia'' = Inr 84532"
proof -
  let ?m = "[(''ethereum-sepolia-testnet'', 11155111::uint64), (''base-sepolia'', 84532)]"
  have d: "distinct (map fst ?m)" by simp
  have K: "{k \<in> fst ` set ?m. Contains k (''ethereum-'' @ ''sepolia'')} = {''ethereum-sepolia-testnet''}"
    by (auto simp: HasPrefix_def)
  have n: "map_of ?m ''sepolia'' = None" by simp
  have v: "map_of ?m ''ethereum-sepolia-testnet'' = Some 11155111" by simp
  have e: "map_of ?m ''base-sepolia'' = Some 84532" by simp
  from C3_four_tiers_substring [OF d, of "''sepolia''"] K n v
  have "findChainIDByName (Inr ?m) ''sepolia'' = Inr 11155111" by blast
  moreover from C3_four_tiers_substring [OF d, of "''base-sepolia''"] e
  have "findChainIDByName (Inr ?m) ''base-sepolia'' = Inr 84532" by blast
  ultimately show ?thesis using d by simp
qed

theorem C5_partial_match_outcomes_witness:
  "distinct (map fst [(''arbitrum-on-xdai'', 200::uint64), (''xdai'', 100), (''gnosis'', 100)])
   \<and> findChainIdByPartialMatch [(''arbitrum-on-xdai'', 200), (''xdai'', 100), (''gnosis'', 100)] ''gno''
       = Inr 100
   \<and> findChainIdByPartialMatch [(''arbitrum-on-xdai'', 200), (''xdai'', 100), (''gnosis'', 100)] ''polygon''
       = Inl (Errorf (''chain not found for name '' @ [CHR 0x27] @ ''polygon'' @ [CHR 0x27]))
   \<and> (\<exists>msg. findChainIdByPartialMatch [(''arbitrum-on-xdai'', 200), (''xdai'', 100), (''gnosis'', 100)] ''xdai''
          = Inl (Errorf msg)
        \<and> Contains msg (''- arbitrum-on-xdai'' @ [CHR 0x0A])
        \<and> Contains msg (''- xdai'' @ [CHR 0x0A]))"
proof -
  let ?m = "[(''arbitrum-on-xdai'', 200::uint64), (''xdai'', 100), (''gnosis'', 100)]"
  have d: "distinct (map fst ?m)" by simp
  have K0: "{k \<in> fst ` set ?m. Contains k ''polygon''} = {}"
    by (auto simp: HasPrefix_def)
  have K1: "{k \<in> fst ` set ?m. Contains k ''gno''} = {''gnosis''}"
    by (auto simp: HasPrefix_def)
  have K2: "{k \<in> fst ` set ?m. Contains k ''xdai''} = {''arbitrum-on-xdai'', ''xdai''}"
    by (auto simp: HasPrefix_def)
  have c2: "card {k \<in> fst ` set ?m. Contains k ''xdai''} \<ge> 2"
    unfolding K2 by simp
  note t0 = C5_partial_match_outcomes [OF d, of "''polygon''"]
  note t1 = C5_partial_match_outcomes [OF d, of "''gno''"]
  note t2 = C5_partial_match_outcomes [OF d, of "''xdai''"]
  have r0: "findChainIdByPartialMatch ?m ''polygon''
      = Inl (Errorf (''chain not found for name '' @ [CHR 0x27] @ ''polygon'' @ [CHR 0x27]))"
    using t0 K0 by blast
  from t1 K1 obtain chainID where "map_of ?m ''gnosis'' = Some chainID"
    and "findChainIdByPartialMatch ?m ''gno'' = Inr chainID" by blast
  then have r1: "findChainIdByPartialMatch ?m ''gno'' = Inr 100" by simp
  from t2 c2 obtain msg where m1: "findChainIdByPartialMatch ?m ''xdai'' = Inl (Errorf msg)"
    and m2: "\<forall>k \<in> {k \<in> fst ` set ?m. Contains k ''xdai''}. Contains msg (''- '' @ k @ [CHR 0x0A])"
    by blast
  from m2 have "Contains msg (''- arbitrum-on-xdai'' @ [CHR 0x0A])"
    and "Contains msg (''- xdai'' @ [CHR 0x0A])"
    unfolding K2 by simp_all
  with m1 r0 r1 d show ?thesis by blast
qed


end
